theory Spec2Isabelle
  imports Main "HOL-Library.Sublist"
begin

section \<open>The pseudo-Japanese language generator: a shallow embedding\<close>

text \<open>
  The program draws from Python's module-level random generator. The embedding makes the
  generator an explicit argument: an infinite sequence of natural numbers, of which every
  draw consumes the first. A theorem that holds for every sequence holds for every
  series of outcomes the real generator can produce.

  Exceptions are values: every function that can raise returns \<open>error + result\<close>.
\<close>

subsection \<open>The random source\<close>

type_synonym rng = "nat \<Rightarrow> nat"

definition draw :: "rng \<Rightarrow> nat \<times> rng" where
  "draw r = (r 0, \<lambda>i. r (i + 1))"

text \<open>The sequence \<open>n, n + 1, n + 2, \<dots>\<close>, on which the examples below are run.\<close>

definition draws_from :: "nat \<Rightarrow> rng" where
  "draws_from n = (\<lambda>i. n + i)"

datatype error = IndexError | KeyError | ValueError

text \<open>\<^verbatim>\<open>random.choice(seq)\<close>: raises IndexError on an empty sequence, otherwise returns
  one of its elements; every index can be drawn.\<close>

definition random_choice :: "'a list \<Rightarrow> rng \<Rightarrow> error + ('a \<times> rng)" where
  "random_choice xs r =
     (if xs = [] then Inl IndexError
      else (case draw r of (d, r') \<Rightarrow> Inr (xs ! (d mod length xs), r')))"

text \<open>\<^verbatim>\<open>random.random() < 0.3\<close>: the floating-point comparison is represented by its
  outcome, a Boolean read off the next draw. Both outcomes can occur.\<close>

definition random_lt_03 :: "rng \<Rightarrow> bool \<times> rng" where
  "random_lt_03 r = (case draw r of (d, r') \<Rightarrow> (d mod 10 < 3, r'))"

text \<open>\<^verbatim>\<open>random.randint(a, b)\<close>: an integer of the closed interval, ValueError when the
  interval is empty.\<close>

definition random_randint :: "int \<Rightarrow> int \<Rightarrow> rng \<Rightarrow> error + (int \<times> rng)" where
  "random_randint a b r =
     (if b < a then Inl ValueError
      else (case draw r of (d, r') \<Rightarrow> Inr (a + int d mod (b - a + 1), r')))"

subsection \<open>PhonologySystem\<close>

text \<open>The two sets of the dataclass are kept as the lists that \<^verbatim>\<open>list(self.consonants)\<close>
  and \<^verbatim>\<open>list(self.vowels)\<close> enumerate; the order is whatever Python's set iteration
  gives, and no theorem below depends on it.\<close>

record PhonologySystem =
  consonants :: "string list"
  vowels :: "string list"
  n_end :: "string list"

definition PhonologySystem_init :: PhonologySystem where
  "PhonologySystem_init =
     \<lparr> consonants = [''k'', ''s'', ''t'', ''n'', ''h'', ''m'', ''y'', ''r'', ''w''],
       vowels = [''a'', ''i'', ''u'', ''e'', ''o''],
       n_end = [''n'', ''''] \<rparr>"

definition generate_syllable :: "PhonologySystem \<Rightarrow> rng \<Rightarrow> error + (string \<times> rng)" where
  "generate_syllable ph r =
     (case random_choice (consonants ph) r of
        Inl e \<Rightarrow> Inl e
      | Inr (c, r1) \<Rightarrow>
          (case random_choice (vowels ph) r1 of
             Inl e \<Rightarrow> Inl e
           | Inr (v, r2) \<Rightarrow>
               (case random_lt_03 r2 of
                  (nasal, r3) \<Rightarrow>
                    if nasal then
                      (case random_choice (n_end ph) r3 of
                         Inl e \<Rightarrow> Inl e
                       | Inr (n, r4) \<Rightarrow> Inr ((c @ v) @ n, r4))
                    else Inr (c @ v, r3))))"

text \<open>The loop \<^verbatim>\<open>for _ in range(syllable_count): word += self.generate_syllable()\<close>,
  with the number of iterations left and the word built so far.\<close>

fun syllable_loop :: "PhonologySystem \<Rightarrow> nat \<Rightarrow> string \<Rightarrow> rng \<Rightarrow> error + (string \<times> rng)" where
  "syllable_loop ph 0 word r = Inr (word, r)"
| "syllable_loop ph (Suc k) word r =
     (case generate_syllable ph r of
        Inl e \<Rightarrow> Inl e
      | Inr (s, r') \<Rightarrow> syllable_loop ph k (word @ s) r')"

definition verb_suffixes :: "string list" where
  "verb_suffixes = [''ru'', ''mu'', ''su'', ''ku'', ''ta'']"

definition noun_suffixes :: "string list" where
  "noun_suffixes = [''ko'', ''mi'', ''ra'', ''to'', ''na'']"

text \<open>\<^verbatim>\<open>generate_word(syllable_count=None, word_type="noun")\<close>. \<open>None\<close> is the omitted
  count; \<^verbatim>\<open>range(n)\<close> is empty for \<open>n \<le> 0\<close>, which \<open>nat n = 0\<close> renders.\<close>

definition generate_word ::
  "PhonologySystem \<Rightarrow> int option \<Rightarrow> string \<Rightarrow> rng \<Rightarrow> error + (string \<times> rng)" where
  "generate_word ph syllable_count word_type r =
     (case (case syllable_count of
              None \<Rightarrow> random_randint 2 3 r
            | Some n \<Rightarrow> Inr (n, r)) of
        Inl e \<Rightarrow> Inl e
      | Inr (n, r1) \<Rightarrow>
          (case syllable_loop ph (nat n) [] r1 of
             Inl e \<Rightarrow> Inl e
           | Inr (word, r2) \<Rightarrow>
               if word_type = ''verb'' then
                 (case random_choice verb_suffixes r2 of
                    Inl e \<Rightarrow> Inl e
                  | Inr (sfx, r3) \<Rightarrow> Inr (word @ sfx, r3))
               else if word_type = ''noun'' then
                 (case random_choice noun_suffixes r2 of
                    Inl e \<Rightarrow> Inl e
                  | Inr (sfx, r3) \<Rightarrow> Inr (word @ sfx, r3))
               else Inr (word, r2)))"

subsection \<open>MorphologySystem\<close>

record MorphologyRule =
  name :: string
  rule_type :: string
  marker :: string
  meaning :: string

record MorphologySystem =
  rules :: "MorphologyRule list"

definition add_rule ::
  "MorphologySystem \<Rightarrow> string \<Rightarrow> string \<Rightarrow> string \<Rightarrow> string \<Rightarrow> MorphologySystem" where
  "add_rule ms nm ty mk mn =
     ms\<lparr>rules := rules ms @ [\<lparr>name = nm, rule_type = ty, marker = mk, meaning = mn\<rparr>]\<rparr>"

text \<open>The scan \<^verbatim>\<open>for rule in self.rules\<close>. A rule whose name matches but whose type is
  neither \<^verbatim>\<open>'prefix'\<close> nor \<^verbatim>\<open>'suffix'\<close> returns nothing, so the loop goes on to the
  next rule.\<close>

fun apply_rules :: "MorphologyRule list \<Rightarrow> string \<Rightarrow> string \<Rightarrow> string" where
  "apply_rules [] base_word rule_name = base_word"
| "apply_rules (rule # rest) base_word rule_name =
     (if name rule = rule_name then
        (if rule_type rule = ''prefix'' then marker rule @ base_word
         else if rule_type rule = ''suffix'' then base_word @ marker rule
         else apply_rules rest base_word rule_name)
      else apply_rules rest base_word rule_name)"

definition apply_morphology :: "MorphologySystem \<Rightarrow> string \<Rightarrow> string \<Rightarrow> string" where
  "apply_morphology ms base_word rule_name = apply_rules (rules ms) base_word rule_name"

subsection \<open>SyntaxSystem\<close>

record SyntaxSystem =
  word_order :: string
  particles :: "string \<rightharpoonup> string list"

definition SyntaxSystem_init :: SyntaxSystem where
  "SyntaxSystem_init =
     \<lparr> word_order = ''SOV'',
       particles = [''subject'' \<mapsto> [''wa'', ''ga''],
                    ''object'' \<mapsto> [''wo''],
                    ''direction'' \<mapsto> [''e'', ''o'']] \<rparr>"

text \<open>\<^verbatim>\<open>d[k]\<close> on a plain dict raises KeyError for a missing key.\<close>

definition dict_getitem :: "('k \<rightharpoonup> 'v) \<Rightarrow> 'k \<Rightarrow> error + 'v" where
  "dict_getitem d k = (case d k of None \<Rightarrow> Inl KeyError | Some v \<Rightarrow> Inr v)"

text \<open>\<^verbatim>\<open>random.choice(self.particles[role])\<close>\<close>

definition choose_particle :: "SyntaxSystem \<Rightarrow> string \<Rightarrow> rng \<Rightarrow> error + (string \<times> rng)" where
  "choose_particle sy role r =
     (case dict_getitem (particles sy) role of
        Inl e \<Rightarrow> Inl e
      | Inr ps \<Rightarrow> random_choice ps r)"

text \<open>\<^verbatim>\<open>sep.join(parts)\<close>\<close>

fun join :: "string \<Rightarrow> string list \<Rightarrow> string" where
  "join sep [] = []"
| "join sep [x] = x"
| "join sep (x # y # ys) = x @ sep @ join sep (y # ys)"

text \<open>The list \<^verbatim>\<open>parts\<close> as it stands just before the final \<^verbatim>\<open>join\<close>; an empty string is
  falsy, so \<^verbatim>\<open>if obj\<close> is \<open>obj \<noteq> []\<close>.\<close>

definition sentence_parts ::
  "SyntaxSystem \<Rightarrow> string \<Rightarrow> string \<Rightarrow> string \<Rightarrow> bool \<Rightarrow> string \<Rightarrow> rng
     \<Rightarrow> error + (string list \<times> rng)" where
  "sentence_parts sy subject verb obj add_adverb adverb r =
     (case choose_particle sy ''subject'' r of
        Inl e \<Rightarrow> Inl e
      | Inr (ps, r1) \<Rightarrow>
          (case (if obj \<noteq> [] then
                   (case choose_particle sy ''object'' r1 of
                      Inl e \<Rightarrow> Inl e
                    | Inr (po, r2) \<Rightarrow> Inr ([subject @ ps] @ [obj @ po], r2))
                 else Inr ([subject @ ps], r1)) of
             Inl e \<Rightarrow> Inl e
           | Inr (parts, r2) \<Rightarrow>
               (case (if add_adverb \<and> adverb \<noteq> [] then
                        (case choose_particle sy ''direction'' r2 of
                           Inl e \<Rightarrow> Inl e
                         | Inr (pd, r3) \<Rightarrow> Inr (parts @ [adverb @ pd], r3))
                      else Inr (parts, r2)) of
                  Inl e \<Rightarrow> Inl e
                | Inr (parts', r3) \<Rightarrow> Inr (parts' @ [verb], r3))))"

definition generate_sentence ::
  "SyntaxSystem \<Rightarrow> string \<Rightarrow> string \<Rightarrow> string \<Rightarrow> bool \<Rightarrow> string \<Rightarrow> rng
     \<Rightarrow> error + (string \<times> rng)" where
  "generate_sentence sy subject verb obj add_adverb adverb r =
     (case sentence_parts sy subject verb obj add_adverb adverb r of
        Inl e \<Rightarrow> Inl e
      | Inr (parts, r') \<Rightarrow> Inr (join '' '' parts @ ''.'', r'))"

subsection \<open>JapaneseLanguageCreatorUI: the state behind the buttons\<close>

text \<open>
  Of the Tk window only the scrolled text widget carries program data. It is kept as the
  list of appended lines, and of the lines the handlers append only those that show a
  generated item are kept, as the item itself: the headings, numbering and Chinese labels
  around them are fixed text. \<open>vocabulary\<close> is the \<^verbatim>\<open>defaultdict(list)\<close>.
\<close>

record JapaneseLanguageCreatorUI =
  phonology :: PhonologySystem
  morphology :: MorphologySystem
  syntax_sys :: SyntaxSystem
  vocabulary :: "string \<rightharpoonup> string list"
  output_text :: "string list"

text \<open>\<^verbatim>\<open>d[k]\<close> on the defaultdict: a missing key is inserted with an empty list.\<close>

definition dd_getitem ::
  "(string \<rightharpoonup> string list) \<Rightarrow> string \<Rightarrow> string list \<times> (string \<rightharpoonup> string list)" where
  "dd_getitem d k = (case d k of None \<Rightarrow> ([], d(k \<mapsto> [])) | Some ws \<Rightarrow> (ws, d))"

text \<open>\<^verbatim>\<open>d[k].append(w)\<close>\<close>

definition dd_append ::
  "(string \<rightharpoonup> string list) \<Rightarrow> string \<Rightarrow> string \<Rightarrow> (string \<rightharpoonup> string list)" where
  "dd_append d k w = (case dd_getitem d k of (ws, d') \<Rightarrow> d'(k \<mapsto> ws @ [w]))"

text \<open>The words stored for a class: what \<^verbatim>\<open>self.vocabulary[k]\<close> reads.\<close>

definition words_of :: "JapaneseLanguageCreatorUI \<Rightarrow> string \<Rightarrow> string list" where
  "words_of st k = fst (dd_getitem (vocabulary st) k)"

definition append_output :: "JapaneseLanguageCreatorUI \<Rightarrow> string \<Rightarrow> JapaneseLanguageCreatorUI" where
  "append_output st line = st\<lparr>output_text := output_text st @ [line]\<rparr>"

definition init_default_rules :: "JapaneseLanguageCreatorUI \<Rightarrow> JapaneseLanguageCreatorUI" where
  "init_default_rules st =
     st\<lparr>morphology :=
          add_rule
            (add_rule
               (add_rule (morphology st) ''plural'' ''suffix'' ''tachi''
                  [CHR 0xE8, CHR 0xA4, CHR 0x87, CHR 0xE6, CHR 0x95, CHR 0xB8])
               ''past'' ''suffix'' ''ta''
               [CHR 0xE9, CHR 0x81, CHR 0x8E, CHR 0xE5, CHR 0x8E, CHR 0xBB,
                CHR 0xE5, CHR 0xBC, CHR 0x8F])
            ''negative'' ''prefix'' ''fu''
            [CHR 0xE5, CHR 0x90, CHR 0xA6, CHR 0xE5, CHR 0xAE, CHR 0x9A]\<rparr>"

text \<open>\<^verbatim>\<open>__init__\<close>, the widgets apart. The meanings above are the UTF-8 bytes of the
  source's Chinese glosses.\<close>

definition JapaneseLanguageCreatorUI_init :: JapaneseLanguageCreatorUI where
  "JapaneseLanguageCreatorUI_init =
     init_default_rules
       \<lparr> phonology = PhonologySystem_init,
         morphology = \<lparr>rules = []\<rparr>,
         syntax_sys = SyntaxSystem_init,
         vocabulary = Map.empty,
         output_text = [] \<rparr>"

text \<open>The five requests of \<^verbatim>\<open>generate_vocabulary\<close>, in order; the Chinese label that the
  source pairs with each is only printed.\<close>

definition word_types :: "string list" where
  "word_types = [''noun'', ''verb'', ''noun'', ''adjective'', ''noun'']"

fun generate_vocabulary_loop ::
  "JapaneseLanguageCreatorUI \<Rightarrow> string list \<Rightarrow> rng
     \<Rightarrow> error + (JapaneseLanguageCreatorUI \<times> rng)" where
  "generate_vocabulary_loop st [] r = Inr (st, r)"
| "generate_vocabulary_loop st (word_type # rest) r =
     (case random_randint 2 3 r of
        Inl e \<Rightarrow> Inl e
      | Inr (n, r1) \<Rightarrow>
          (case generate_word (phonology st) (Some n) word_type r1 of
             Inl e \<Rightarrow> Inl e
           | Inr (word, r2) \<Rightarrow>
               generate_vocabulary_loop
                 (append_output
                    (st\<lparr>vocabulary := dd_append (vocabulary st) word_type word\<rparr>) word)
                 rest r2))"

definition generate_vocabulary ::
  "JapaneseLanguageCreatorUI \<Rightarrow> rng \<Rightarrow> error + (JapaneseLanguageCreatorUI \<times> rng)" where
  "generate_vocabulary st r = generate_vocabulary_loop st word_types r"

text \<open>One block of \<^verbatim>\<open>show_morphology\<close>: the class is read through the defaultdict, and
  sampled only when its list is non-empty.\<close>

definition show_variant ::
  "JapaneseLanguageCreatorUI \<Rightarrow> string \<Rightarrow> string \<Rightarrow> rng
     \<Rightarrow> error + (JapaneseLanguageCreatorUI \<times> rng)" where
  "show_variant st cls rule_name r =
     (case dd_getitem (vocabulary st) cls of
        (ws, voc) \<Rightarrow>
          if ws \<noteq> [] then
            (case random_choice ws r of
               Inl e \<Rightarrow> Inl e
             | Inr (w, r1) \<Rightarrow>
                 Inr (append_output (st\<lparr>vocabulary := voc\<rparr>)
                        (apply_morphology (morphology st) w rule_name), r1))
          else Inr (st\<lparr>vocabulary := voc\<rparr>, r))"

text \<open>The adjective block tests \<^verbatim>\<open>self.vocabulary.get('adjective')\<close>, which inserts no
  key.\<close>

definition show_morphology ::
  "JapaneseLanguageCreatorUI \<Rightarrow> rng \<Rightarrow> error + (JapaneseLanguageCreatorUI \<times> rng)" where
  "show_morphology st r =
     (case show_variant st ''noun'' ''plural'' r of
        Inl e \<Rightarrow> Inl e
      | Inr (st1, r1) \<Rightarrow>
          (case show_variant st1 ''verb'' ''past'' r1 of
             Inl e \<Rightarrow> Inl e
           | Inr (st2, r2) \<Rightarrow>
               (case vocabulary st2 ''adjective'' of
                  None \<Rightarrow> Inr (st2, r2)
                | Some ws \<Rightarrow>
                    if ws \<noteq> [] then show_variant st2 ''adjective'' ''negative'' r2
                    else Inr (st2, r2))))"

text \<open>\<^verbatim>\<open>for _ in range(k): self.vocabulary[cls].append(self.phonology.generate_word(2, cls))\<close>\<close>

fun seed_loop ::
  "JapaneseLanguageCreatorUI \<Rightarrow> string \<Rightarrow> nat \<Rightarrow> rng
     \<Rightarrow> error + (JapaneseLanguageCreatorUI \<times> rng)" where
  "seed_loop st cls 0 r = Inr (st, r)"
| "seed_loop st cls (Suc k) r =
     (case generate_word (phonology st) (Some 2) cls r of
        Inl e \<Rightarrow> Inl e
      | Inr (word, r1) \<Rightarrow>
          seed_loop (st\<lparr>vocabulary := dd_append (vocabulary st) cls word\<rparr>) cls k r1)"

text \<open>\<^verbatim>\<open>if not self.vocabulary[cls]: \<dots>\<close>\<close>

definition ensure_words ::
  "JapaneseLanguageCreatorUI \<Rightarrow> string \<Rightarrow> nat \<Rightarrow> rng
     \<Rightarrow> error + (JapaneseLanguageCreatorUI \<times> rng)" where
  "ensure_words st cls k r =
     (case dd_getitem (vocabulary st) cls of
        (ws, voc) \<Rightarrow>
          if ws = [] then seed_loop (st\<lparr>vocabulary := voc\<rparr>) cls k r
          else Inr (st\<lparr>vocabulary := voc\<rparr>, r))"

definition sentence_patterns :: "string list list" where
  "sentence_patterns =
     [[''S'', ''O'', ''V''], [''S'', ''V''], [''S'', ''O'', ''V'', ''Adv'']]"

fun sentence_loop ::
  "JapaneseLanguageCreatorUI \<Rightarrow> nat \<Rightarrow> rng
     \<Rightarrow> error + (JapaneseLanguageCreatorUI \<times> rng)" where
  "sentence_loop st 0 r = Inr (st, r)"
| "sentence_loop st (Suc k) r =
     (case random_choice sentence_patterns r of
        Inl e \<Rightarrow> Inl e
      | Inr (pattern, r1) \<Rightarrow>
     (case dd_getitem (vocabulary st) ''noun'' of (nouns, voc1) \<Rightarrow>
     (case random_choice nouns r1 of
        Inl e \<Rightarrow> Inl e
      | Inr (subject, r2) \<Rightarrow>
     (case dd_getitem voc1 ''verb'' of (verbs, voc2) \<Rightarrow>
     (case random_choice verbs r2 of
        Inl e \<Rightarrow> Inl e
      | Inr (verb, r3) \<Rightarrow>
     (case (if ''O'' \<in> set pattern
            then (case dd_getitem voc2 ''noun'' of (nouns', voc3) \<Rightarrow>
                    (case random_choice nouns' r3 of
                       Inl e \<Rightarrow> Inl e
                     | Inr (obj, r4) \<Rightarrow> Inr (obj, voc3, r4)))
            else Inr ([], voc2, r3)) of
        Inl e \<Rightarrow> Inl e
      | Inr (obj, voc3, r4) \<Rightarrow>
     (case (if ''Adv'' \<in> set pattern
            then generate_word (phonology st) (Some 2) ''noun'' r4
            else Inr ([], r4)) of
        Inl e \<Rightarrow> Inl e
      | Inr (adverb, r5) \<Rightarrow>
     (case generate_sentence (syntax_sys st) subject verb obj
             (''Adv'' \<in> set pattern) adverb r5 of
        Inl e \<Rightarrow> Inl e
      | Inr (sentence, r6) \<Rightarrow>
          sentence_loop (append_output (st\<lparr>vocabulary := voc3\<rparr>) sentence) k r6))))))))"

text \<open>\<^verbatim>\<open>generate_sentences(count)\<close>: both classes are seeded before the loop starts.\<close>

definition generate_sentences ::
  "JapaneseLanguageCreatorUI \<Rightarrow> int \<Rightarrow> rng \<Rightarrow> error + (JapaneseLanguageCreatorUI \<times> rng)" where
  "generate_sentences st count r =
     (case ensure_words st ''noun'' 3 r of
        Inl e \<Rightarrow> Inl e
      | Inr (st1, r1) \<Rightarrow>
          (case ensure_words st1 ''verb'' 2 r1 of
             Inl e \<Rightarrow> Inl e
           | Inr (st2, r2) \<Rightarrow> sentence_loop st2 (nat count) r2))"

text \<open>\<^verbatim>\<open>final_showcase\<close> prints the configuration and the size of every non-empty class
  (reading \<^verbatim>\<open>self.vocabulary.items()\<close>, which changes nothing), then calls
  \<^verbatim>\<open>self.generate_sentences(3)\<close>.\<close>

definition final_showcase ::
  "JapaneseLanguageCreatorUI \<Rightarrow> rng \<Rightarrow> error + (JapaneseLanguageCreatorUI \<times> rng)" where
  "final_showcase st r = generate_sentences st 3 r"

subsection \<open>Configurations on which no draw can fail\<close>

text \<open>\<^verbatim>\<open>random.choice\<close> raises on an empty sequence and a dict lookup raises on a missing
  key. The two predicates say that the phonology has something to choose from and that
  the syntax has a non-empty particle list for each of the three roles the code looks up.
  The configurations the program constructs satisfy both.\<close>

definition phonology_usable :: "PhonologySystem \<Rightarrow> bool" where
  "phonology_usable ph \<longleftrightarrow> consonants ph \<noteq> [] \<and> vowels ph \<noteq> [] \<and> n_end ph \<noteq> []"

definition role_usable :: "SyntaxSystem \<Rightarrow> string \<Rightarrow> bool" where
  "role_usable sy role = (case particles sy role of None \<Rightarrow> False | Some ps \<Rightarrow> ps \<noteq> [])"

definition syntax_usable :: "SyntaxSystem \<Rightarrow> bool" where
  "syntax_usable sy \<longleftrightarrow>
     role_usable sy ''subject'' \<and> role_usable sy ''object'' \<and> role_usable sy ''direction''"

section \<open>Properties\<close>

subsection \<open>Random draws\<close>

lemma random_choice_Inr:
  "xs \<noteq> [] \<Longrightarrow> \<exists>x r'. random_choice xs r = Inr (x, r') \<and> x \<in> set xs"
  by (simp add: random_choice_def draw_def)

lemma random_choice_mem:
  "random_choice xs r = Inr (x, r') \<Longrightarrow> x \<in> set xs"
  by (auto simp: random_choice_def draw_def split: if_splits)

lemma random_randint_2_3:
  "\<exists>n r'. random_randint 2 3 r = Inr (n, r') \<and> (n = 2 \<or> n = 3)"
  by (auto simp: random_randint_def draw_def)

subsection \<open>Syllables and words\<close>

lemma generate_syllable_shape:
  assumes "generate_syllable ph r = Inr (s, r')"
  shows "\<exists>c\<in>set (consonants ph). \<exists>v\<in>set (vowels ph).
           s = c @ v \<or> (\<exists>n\<in>set (n_end ph). s = c @ v @ n)"
  using assms
  by (auto simp: generate_syllable_def random_lt_03_def
           split: sum.splits prod.splits if_splits dest!: random_choice_mem)

lemma generate_syllable_total:
  assumes "consonants ph \<noteq> []" "vowels ph \<noteq> []" "n_end ph \<noteq> []"
  shows "\<exists>s r'. generate_syllable ph r = Inr (s, r')"
  using assms
  by (auto simp: generate_syllable_def random_choice_def random_lt_03_def draw_def)

lemma generate_syllable_length:
  assumes "generate_syllable ph r = Inr (s, r')"
      and "[] \<notin> set (consonants ph)" "[] \<notin> set (vowels ph)"
  shows "2 \<le> length s"
proof -
  from generate_syllable_shape [OF assms(1)]
  obtain c v where cv: "c \<in> set (consonants ph)" "v \<in> set (vowels ph)"
    and s: "s = c @ v \<or> (\<exists>n\<in>set (n_end ph). s = c @ v @ n)" by blast
  from cv assms(2,3) have "c \<noteq> []" "v \<noteq> []" by auto
  then have "1 \<le> length c" "1 \<le> length v"
    by (simp_all add: Suc_le_eq)
  with s show ?thesis by auto
qed

lemma syllable_loop_total:
  assumes "consonants ph \<noteq> []" "vowels ph \<noteq> []" "n_end ph \<noteq> []"
  shows "\<exists>w r'. syllable_loop ph k word r = Inr (w, r')"
proof (induction k arbitrary: word r)
  case 0
  show ?case by simp
next
  case (Suc k)
  from generate_syllable_total [OF assms, of r]
  obtain s r1 where "generate_syllable ph r = Inr (s, r1)" by blast
  with Suc [of "word @ s" r1] show ?case by simp
qed

lemma syllable_loop_length:
  assumes "[] \<notin> set (consonants ph)" "[] \<notin> set (vowels ph)"
  shows "syllable_loop ph k word r = Inr (w, r') \<Longrightarrow> length word + 2 * k \<le> length w"
proof (induction k arbitrary: word r)
  case 0
  then show ?case by simp
next
  case (Suc k)
  from Suc.prems obtain s r1 where g: "generate_syllable ph r = Inr (s, r1)"
    and l: "syllable_loop ph k (word @ s) r1 = Inr (w, r')"
    by (auto split: sum.splits)
  from generate_syllable_length [OF g assms] Suc.IH [OF l]
  show ?case by simp
qed

lemma generate_word_total:
  assumes "consonants ph \<noteq> []" "vowels ph \<noteq> []" "n_end ph \<noteq> []"
  shows "\<exists>w r'. generate_word ph syllable_count word_type r = Inr (w, r')"
proof -
  obtain n r1 where c: "(case syllable_count of None \<Rightarrow> random_randint 2 3 r
                          | Some n \<Rightarrow> Inr (n, r)) = Inr (n, r1)"
    by (cases syllable_count) (auto simp: random_randint_def draw_def)
  from syllable_loop_total [OF assms, of "nat n" "[]" r1]
  obtain word r2 where l: "syllable_loop ph (nat n) [] r1 = Inr (word, r2)" by blast
  show ?thesis
    unfolding generate_word_def c using l
    by (simp add: random_choice_def draw_def verb_suffixes_def noun_suffixes_def)
qed

lemma generate_word_Some:
  assumes "generate_word ph (Some n) word_type r = Inr (w, r')"
  shows "\<exists>word r1. syllable_loop ph (nat n) [] r = Inr (word, r1) \<and>
           (if word_type = ''verb'' then \<exists>sfx\<in>set verb_suffixes. w = word @ sfx
            else if word_type = ''noun'' then \<exists>sfx\<in>set noun_suffixes. w = word @ sfx
            else w = word)"
  using assms unfolding generate_word_def
  by (cases "word_type = ''verb''"; cases "word_type = ''noun''")
     (auto split: sum.splits simp: random_choice_mem)

lemma generate_word_None:
  assumes "generate_word ph None word_type r = Inr (w, r')"
  shows "\<exists>n r1. (n = 2 \<or> n = 3) \<and> generate_word ph (Some n) word_type r1 = Inr (w, r')"
proof -
  from assms obtain n r1 where rr: "random_randint 2 3 r = Inr (n, r1)"
    by (auto simp: generate_word_def split: sum.splits)
  then have "n = 2 \<or> n = 3"
    by (auto simp: random_randint_def draw_def)
  moreover from assms rr have "generate_word ph (Some n) word_type r1 = Inr (w, r')"
    by (simp add: generate_word_def)
  ultimately show ?thesis by blast
qed

lemma noun_suffixes_set: "set noun_suffixes = {''ko'', ''mi'', ''ra'', ''to'', ''na''}"
  by (simp add: noun_suffixes_def)

lemma verb_suffixes_set: "set verb_suffixes = {''ru'', ''mu'', ''su'', ''ku'', ''ta''}"
  by (simp add: verb_suffixes_def)

lemma generate_word_suffix:
  assumes "generate_word ph (Some n) word_type r = Inr (w, r')"
  shows "(word_type = ''noun'' \<longrightarrow> (\<exists>sfx\<in>set noun_suffixes. suffix sfx w))
       \<and> (word_type = ''verb'' \<longrightarrow> (\<exists>sfx\<in>set verb_suffixes. suffix sfx w))"
proof -
  from generate_word_Some [OF assms]
  obtain word where w: "if word_type = ''verb'' then \<exists>sfx\<in>set verb_suffixes. w = word @ sfx
            else if word_type = ''noun'' then \<exists>sfx\<in>set noun_suffixes. w = word @ sfx
            else w = word" by blast
  have "\<exists>sfx\<in>set noun_suffixes. suffix sfx w" if "word_type = ''noun''"
  proof -
    from w that obtain sfx where "sfx \<in> set noun_suffixes" "w = word @ sfx" by auto
    then show ?thesis by (auto intro: suffixI)
  qed
  moreover have "\<exists>sfx\<in>set verb_suffixes. suffix sfx w" if "word_type = ''verb''"
  proof -
    from w that obtain sfx where "sfx \<in> set verb_suffixes" "w = word @ sfx" by auto
    then show ?thesis by (auto intro: suffixI)
  qed
  ultimately show ?thesis by blast
qed

lemma PhonologySystem_init_usable:
  "consonants PhonologySystem_init \<noteq> []" "vowels PhonologySystem_init \<noteq> []"
  "n_end PhonologySystem_init \<noteq> []"
  "[] \<notin> set (consonants PhonologySystem_init)" "[] \<notin> set (vowels PhonologySystem_init)"
  by (simp_all add: PhonologySystem_init_def)

text \<open>Two runs of the default phonology on the draws 0, 1, 2, \<dots>\<close>

lemma generate_syllable_example:
  "map_sum id fst (generate_syllable PhonologySystem_init (draws_from 0)) = Inr ''ki''"
  by code_simp

lemma generate_word_example:
  "map_sum id fst (generate_word PhonologySystem_init (Some 2) ''noun'' (draws_from 0))
     = Inr ''kihara''"
  by code_simp

text \<open>
  C7. Every string that \<open>generate_syllable\<close> returns is a consonant of the configured
  consonants followed by a vowel of the configured vowels, optionally followed by one of
  the nasal-ending options; and it does return a string whenever none of the three
  collections is empty (otherwise \<^verbatim>\<open>random.choice\<close> raises).
\<close>

theorem generate_syllable_pattern:
  "(consonants ph \<noteq> [] \<and> vowels ph \<noteq> [] \<and> n_end ph \<noteq> []
      \<longrightarrow> (\<exists>s r'. generate_syllable ph r = Inr (s, r')))
   \<and> (\<forall>s r'. generate_syllable ph r = Inr (s, r')
      \<longrightarrow> (\<exists>c\<in>set (consonants ph). \<exists>v\<in>set (vowels ph).
             s = c @ v \<or> (\<exists>n\<in>set (n_end ph). s = c @ v @ n)))"
  using generate_syllable_total [of ph r] generate_syllable_shape [of ph r]
  by blast

theorem generate_syllable_pattern_witness:
  "consonants PhonologySystem_init \<noteq> [] \<and> vowels PhonologySystem_init \<noteq> []
   \<and> n_end PhonologySystem_init \<noteq> []
   \<and> (\<exists>s r'. generate_syllable PhonologySystem_init (draws_from 0) = Inr (s, r')
        \<and> (\<exists>c\<in>set (consonants PhonologySystem_init).
            \<exists>v\<in>set (vowels PhonologySystem_init).
              s = c @ v \<or> (\<exists>n\<in>set (n_end PhonologySystem_init). s = c @ v @ n)))"
  using generate_syllable_pattern [of PhonologySystem_init "draws_from 0"]
    PhonologySystem_init_usable(1-3)
  by blast

text \<open>
  C6. For a phonology whose consonants and vowels are non-empty strings (the default one
  is), the word that \<open>generate_word\<close> builds from a given \<open>syllable_count\<close> has at least
  \<open>2 * syllable_count\<close> characters, and it ends with one of \<^verbatim>\<open>ko mi ra to na\<close> when the
  word type is \<^verbatim>\<open>noun\<close> and with one of \<^verbatim>\<open>ru mu su ku ta\<close> when it is \<^verbatim>\<open>verb\<close>.
\<close>

theorem generate_word_length_suffix:
  assumes "consonants ph \<noteq> []" "vowels ph \<noteq> []" "n_end ph \<noteq> []"
      and "[] \<notin> set (consonants ph)" "[] \<notin> set (vowels ph)"
  shows "\<exists>w r'. generate_word ph (Some n) word_type r = Inr (w, r')
           \<and> 2 * n \<le> int (length w)
           \<and> (word_type = ''noun'' \<longrightarrow>
                (\<exists>sfx\<in>{''ko'', ''mi'', ''ra'', ''to'', ''na''}. suffix sfx w))
           \<and> (word_type = ''verb'' \<longrightarrow>
                (\<exists>sfx\<in>{''ru'', ''mu'', ''su'', ''ku'', ''ta''}. suffix sfx w))"
proof -
  from generate_word_total [OF assms(1-3)]
  obtain w r' where g: "generate_word ph (Some n) word_type r = Inr (w, r')" by blast
  from generate_word_Some [OF g]
  obtain word r1 where l: "syllable_loop ph (nat n) [] r = Inr (word, r1)"
    and w: "if word_type = ''verb'' then \<exists>sfx\<in>set verb_suffixes. w = word @ sfx
            else if word_type = ''noun'' then \<exists>sfx\<in>set noun_suffixes. w = word @ sfx
            else w = word" by blast
  from syllable_loop_length [OF assms(4,5) l] have "2 * nat n \<le> length word" by simp
  moreover from w have "length word \<le> length w" by (auto split: if_splits)
  ultimately have len: "2 * n \<le> int (length w)" by linarith
  have sfx: "(word_type = ''noun'' \<longrightarrow>
                (\<exists>sfx\<in>{''ko'', ''mi'', ''ra'', ''to'', ''na''}. suffix sfx w))
           \<and> (word_type = ''verb'' \<longrightarrow>
                (\<exists>sfx\<in>{''ru'', ''mu'', ''su'', ''ku'', ''ta''}. suffix sfx w))"
    using generate_word_suffix [OF g] unfolding noun_suffixes_set verb_suffixes_set .
  show ?thesis
    by (rule exI [of _ w], rule exI [of _ r'])
       (intro conjI g len conjunct1 [OF sfx] conjunct2 [OF sfx])
qed

theorem generate_word_length_suffix_witness:
  "\<exists>w r'. generate_word PhonologySystem_init (Some 2) ''noun'' (draws_from 0) = Inr (w, r')
           \<and> 4 \<le> int (length w)
           \<and> (\<exists>sfx\<in>{''ko'', ''mi'', ''ra'', ''to'', ''na''}. suffix sfx w)"
  using generate_word_length_suffix [OF PhonologySystem_init_usable, of 2 "''noun''" "draws_from 0"]
  by simp

text \<open>
  C3, as stated, fails: with a count of zero and a word type that is neither \<^verbatim>\<open>noun\<close>
  nor \<^verbatim>\<open>verb\<close> the loop body never runs, no suffix is added, and the result is the
  empty string.
\<close>

theorem generate_word_empty_counterexample:
  "generate_word PhonologySystem_init (Some 0) ''adjective'' (draws_from 0)
     = Inr ([], draws_from 0)"
  by (simp add: generate_word_def)

text \<open>
  C3, amended. For a phonology whose consonants and vowels are non-empty strings,
  \<open>generate_word\<close> returns a non-empty string whenever the count is omitted, or is at
  least 1, or the word type is \<^verbatim>\<open>noun\<close> or \<^verbatim>\<open>verb\<close>.
\<close>

theorem generate_word_nonempty:
  assumes "consonants ph \<noteq> []" "vowels ph \<noteq> []" "n_end ph \<noteq> []"
      and "[] \<notin> set (consonants ph)" "[] \<notin> set (vowels ph)"
      and "syllable_count = None \<or> (\<exists>n. syllable_count = Some n \<and> 1 \<le> n)
           \<or> word_type = ''noun'' \<or> word_type = ''verb''"
  shows "\<exists>w r'. generate_word ph syllable_count word_type r = Inr (w, r') \<and> w \<noteq> []"
proof -
  from generate_word_total [OF assms(1-3)]
  obtain w r' where g: "generate_word ph syllable_count word_type r = Inr (w, r')" by blast
  have some: "w' \<noteq> []" if gs: "generate_word ph (Some n) word_type r0 = Inr (w', r0')"
    and c: "1 \<le> n \<or> word_type = ''noun'' \<or> word_type = ''verb''" for n r0 w' r0'
  proof -
    from generate_word_Some [OF gs]
    obtain word r1 where l: "syllable_loop ph (nat n) [] r0 = Inr (word, r1)"
      and w: "if word_type = ''verb'' then \<exists>sfx\<in>set verb_suffixes. w' = word @ sfx
              else if word_type = ''noun'' then \<exists>sfx\<in>set noun_suffixes. w' = word @ sfx
              else w' = word" by blast
    from syllable_loop_length [OF assms(4,5) l] have k: "2 * nat n \<le> length word" by simp
    show ?thesis
    proof (cases "word_type = ''noun'' \<or> word_type = ''verb''")
      case True
      with w show ?thesis
        by (auto simp: noun_suffixes_def verb_suffixes_def split: if_splits)
    next
      case False
      with c have "1 \<le> n" by simp
      with k have "word \<noteq> []" by auto
      with w show ?thesis by (auto split: if_splits)
    qed
  qed
  have "w \<noteq> []"
  proof (cases syllable_count)
    case None
    with g generate_word_None [of ph word_type r w r']
    obtain n r1 where "n = 2 \<or> n = 3" "generate_word ph (Some n) word_type r1 = Inr (w, r')"
      by blast
    then show ?thesis using some [of n r1 w r'] by auto
  next
    case (Some n)
    with g assms(6) show ?thesis using some [of n r w r'] by auto
  qed
  with g show ?thesis by blast
qed

theorem generate_word_nonempty_witness:
  "\<exists>w r'. generate_word PhonologySystem_init (Some 1) ''adjective'' (draws_from 0) = Inr (w, r')
     \<and> w \<noteq> []"
  using generate_word_nonempty [OF PhonologySystem_init_usable,
          of "Some 1" "''adjective''" "draws_from 0"]
  by simp

subsection \<open>Morphology rules\<close>

lemma apply_rules_no_match:
  "\<forall>rule\<in>set rs. name rule \<noteq> rule_name \<Longrightarrow> apply_rules rs base_word rule_name = base_word"
  by (induction rs) simp_all

lemma apply_rules_skip:
  assumes "\<forall>p\<in>set pre. name p = rule_name \<longrightarrow>
             rule_type p \<noteq> ''prefix'' \<and> rule_type p \<noteq> ''suffix''"
  shows "apply_rules (pre @ rest) base_word rule_name = apply_rules rest base_word rule_name"
  using assms by (induction pre) simp_all

lemma default_rules:
  "rules (morphology JapaneseLanguageCreatorUI_init) =
     [\<lparr>name = ''plural'', rule_type = ''suffix'', marker = ''tachi'',
        meaning = [CHR 0xE8, CHR 0xA4, CHR 0x87, CHR 0xE6, CHR 0x95, CHR 0xB8]\<rparr>,
      \<lparr>name = ''past'', rule_type = ''suffix'', marker = ''ta'',
        meaning = [CHR 0xE9, CHR 0x81, CHR 0x8E, CHR 0xE5, CHR 0x8E, CHR 0xBB,
                   CHR 0xE5, CHR 0xBC, CHR 0x8F]\<rparr>,
      \<lparr>name = ''negative'', rule_type = ''prefix'', marker = ''fu'',
        meaning = [CHR 0xE5, CHR 0x90, CHR 0xA6, CHR 0xE5, CHR 0xAE, CHR 0x9A]\<rparr>]"
  by (simp add: JapaneseLanguageCreatorUI_init_def init_default_rules_def add_rule_def)

text \<open>
  C2. With the rule list that \<open>init_default_rules\<close> installs at construction, applying
  \<^verbatim>\<open>plural\<close> to any word appends \<^verbatim>\<open>tachi\<close>, applying \<^verbatim>\<open>past\<close> appends \<^verbatim>\<open>ta\<close>, and
  applying \<^verbatim>\<open>negative\<close> puts \<^verbatim>\<open>fu\<close> in front.
\<close>

theorem default_rules_apply:
  "apply_morphology (morphology JapaneseLanguageCreatorUI_init) w ''plural'' = w @ ''tachi''
   \<and> apply_morphology (morphology JapaneseLanguageCreatorUI_init) w ''past'' = w @ ''ta''
   \<and> apply_morphology (morphology JapaneseLanguageCreatorUI_init) w ''negative'' = ''fu'' @ w"
  by (simp add: apply_morphology_def default_rules)

text \<open>
  C5. When no rule of the list has the requested name, \<open>apply_morphology\<close> returns the
  base word unchanged. The function has no raising branch: its result is a plain string.
\<close>

theorem apply_morphology_unmatched:
  "\<forall>rule\<in>set (rules ms). name rule \<noteq> rule_name
     \<Longrightarrow> apply_morphology ms base_word rule_name = base_word"
  by (simp add: apply_morphology_def apply_rules_no_match)

theorem apply_morphology_unmatched_witness:
  "''unknown_rule'' \<notin> set (map name (rules (morphology JapaneseLanguageCreatorUI_init)))
   \<and> apply_morphology (morphology JapaneseLanguageCreatorUI_init) ''neko'' ''unknown_rule''
       = ''neko''"
proof -
  have h: "\<forall>rule\<in>set (rules (morphology JapaneseLanguageCreatorUI_init)).
       name rule \<noteq> ''unknown_rule''"
    by (simp add: default_rules)
  have "''unknown_rule'' \<notin> set (map name (rules (morphology JapaneseLanguageCreatorUI_init)))"
    by (simp add: default_rules)
  with apply_morphology_unmatched [OF h, of "''neko''"] show ?thesis by (rule conjI [rotated])
qed

text \<open>
  C8. Whatever rules \<open>add_rule\<close> has appended, several of one name included,
  \<open>apply_morphology\<close> uses the first rule in insertion order whose name is the requested
  one: it returns marker + word when that rule is a prefix rule and word + marker when it
  is a suffix rule. The rules after it, those of the same name too, are never consulted:
  \<open>post\<close> below is arbitrary and the result does not mention it.
\<close>

theorem apply_morphology_first_match:
  assumes "rules ms = pre @ rule # post"
      and "\<forall>p\<in>set pre. name p \<noteq> rule_name"
      and "name rule = rule_name"
  shows "(rule_type rule = ''prefix'' \<longrightarrow>
            apply_morphology ms base_word rule_name = marker rule @ base_word)
       \<and> (rule_type rule = ''suffix'' \<longrightarrow>
            apply_morphology ms base_word rule_name = base_word @ marker rule)"
proof -
  from assms(2) have "\<forall>p\<in>set pre. name p = rule_name \<longrightarrow>
             rule_type p \<noteq> ''prefix'' \<and> rule_type p \<noteq> ''suffix''" by simp
  from apply_rules_skip [OF this, of "rule # post" base_word] assms(1,3)
  show ?thesis by (simp add: apply_morphology_def)
qed

theorem apply_morphology_first_match_witness:
  "apply_morphology
     (add_rule (add_rule (add_rule \<lparr>rules = []\<rparr> ''plural'' ''suffix'' ''tachi'' ''many'')
        ''past'' ''suffix'' ''ta'' ''before'') ''past'' ''prefix'' ''moto'' ''former'')
     ''miru'' ''past'' = ''miruta''"
  using apply_morphology_first_match
    [of "add_rule (add_rule (add_rule \<lparr>rules = []\<rparr> ''plural'' ''suffix'' ''tachi'' ''many'')
        ''past'' ''suffix'' ''ta'' ''before'') ''past'' ''prefix'' ''moto'' ''former''"
        "[\<lparr>name = ''plural'', rule_type = ''suffix'', marker = ''tachi'', meaning = ''many''\<rparr>]"
        "\<lparr>name = ''past'', rule_type = ''suffix'', marker = ''ta'', meaning = ''before''\<rparr>"
        "[\<lparr>name = ''past'', rule_type = ''prefix'', marker = ''moto'', meaning = ''former''\<rparr>]"
        "''past''" "''miru''"]
  by (simp add: add_rule_def)

subsection \<open>Sentences\<close>

lemma join_snoc: "parts \<noteq> [] \<Longrightarrow> join sep (parts @ [x]) = join sep parts @ sep @ x"
  by (induction sep parts rule: join.induct) simp_all

lemma join_prefix: "prefix x (join sep (x # rest))"
  by (cases rest) simp_all

lemma choose_particle_Inr:
  "choose_particle sy role r = Inr (p, r') \<Longrightarrow>
     \<exists>ps. particles sy role = Some ps \<and> p \<in> set ps"
  by (auto simp: choose_particle_def dict_getitem_def random_choice_mem
           split: option.splits)

lemma choose_particle_total:
  "role_usable sy role \<Longrightarrow> \<exists>p r'. choose_particle sy role r = Inr (p, r')"
  by (auto simp: role_usable_def choose_particle_def dict_getitem_def random_choice_def
                 draw_def split: option.splits)

lemma sentence_parts_shape:
  assumes "sentence_parts sy subject verb obj add_adverb adverb r = Inr (parts, r')"
  shows "\<exists>ps ob av.
           (\<exists>S. particles sy ''subject'' = Some S \<and> ps \<in> set S)
         \<and> (if obj \<noteq> []
             then \<exists>P po. particles sy ''object'' = Some P \<and> po \<in> set P \<and> ob = [obj @ po]
             else ob = [])
         \<and> (if add_adverb \<and> adverb \<noteq> []
             then \<exists>D pd. particles sy ''direction'' = Some D \<and> pd \<in> set D
                    \<and> av = [adverb @ pd]
             else av = [])
         \<and> parts = [subject @ ps] @ ob @ av @ [verb]"
proof -
  from assms obtain ps r1 where s: "choose_particle sy ''subject'' r = Inr (ps, r1)"
    by (cases "choose_particle sy ''subject'' r") (auto simp: sentence_parts_def)
  define objstep where "objstep =
     (if obj \<noteq> [] then
        (case choose_particle sy ''object'' r1 of
           Inl e \<Rightarrow> Inl e
         | Inr (po, r2) \<Rightarrow> Inr ([subject @ ps] @ [obj @ po], r2))
      else Inr ([subject @ ps], r1))"
  from assms s obtain parts1 r2 where o: "objstep = Inr (parts1, r2)"
    by (cases objstep) (auto simp: sentence_parts_def objstep_def)
  define advstep where "advstep =
     (if add_adverb \<and> adverb \<noteq> [] then
        (case choose_particle sy ''direction'' r2 of
           Inl e \<Rightarrow> Inl e
         | Inr (pd, r3) \<Rightarrow> Inr (parts1 @ [adverb @ pd], r3))
      else Inr (parts1, r2))"
  from assms s o obtain parts2 where a: "advstep = Inr (parts2, r')"
    and p: "parts = parts2 @ [verb]"
    by (cases advstep) (auto simp: sentence_parts_def objstep_def advstep_def)
  from o obtain ob where ob: "parts1 = [subject @ ps] @ ob"
    "if obj \<noteq> []
     then \<exists>P po. particles sy ''object'' = Some P \<and> po \<in> set P \<and> ob = [obj @ po]
     else ob = []"
    by (auto simp: objstep_def split: if_splits sum.splits dest: choose_particle_Inr)
  from a obtain av where av: "parts2 = parts1 @ av"
    "if add_adverb \<and> adverb \<noteq> []
     then \<exists>D pd. particles sy ''direction'' = Some D \<and> pd \<in> set D \<and> av = [adverb @ pd]
     else av = []"
    by (auto simp: advstep_def split: if_splits sum.splits dest: choose_particle_Inr)
  from ob(1) av(1) p have "parts = [subject @ ps] @ ob @ av @ [verb]" by simp
  with choose_particle_Inr [OF s] ob(2) av(2) show ?thesis by blast
qed

lemma sentence_parts_total:
  assumes "syntax_usable sy"
  shows "\<exists>parts r'. sentence_parts sy subject verb obj add_adverb adverb r = Inr (parts, r')"
proof -
  from assms have u: "role_usable sy ''subject''" "role_usable sy ''object''"
    "role_usable sy ''direction''" by (simp_all add: syntax_usable_def)
  from choose_particle_total [OF u(1)] obtain ps r1
    where s: "choose_particle sy ''subject'' r = Inr (ps, r1)" by blast
  from choose_particle_total [OF u(2)] obtain po r2
    where o: "choose_particle sy ''object'' r1 = Inr (po, r2)" by blast
  from choose_particle_total [OF u(3)] obtain pd1 r3
    where d1: "choose_particle sy ''direction'' r1 = Inr (pd1, r3)" by blast
  from choose_particle_total [OF u(3)] obtain pd2 r4
    where d2: "choose_particle sy ''direction'' r2 = Inr (pd2, r4)" by blast
  show ?thesis
    by (simp add: sentence_parts_def s o d1 d2)
qed

lemma generate_sentence_Inr:
  "generate_sentence sy subject verb obj add_adverb adverb r = Inr (s, r') \<longleftrightarrow>
     (\<exists>parts. sentence_parts sy subject verb obj add_adverb adverb r = Inr (parts, r')
        \<and> s = join '' '' parts @ ''.'')"
  by (auto simp: generate_sentence_def split: sum.splits)

lemma generate_sentence_total:
  assumes "syntax_usable sy"
  shows "\<exists>s r'. generate_sentence sy subject verb obj add_adverb adverb r = Inr (s, r')"
  using sentence_parts_total [OF assms, of subject verb obj add_adverb adverb r]
  by (auto simp: generate_sentence_Inr)

lemma SyntaxSystem_init_usable: "syntax_usable SyntaxSystem_init"
  by (simp add: syntax_usable_def role_usable_def SyntaxSystem_init_def)

lemma generate_sentence_example:
  "map_sum id fst (generate_sentence SyntaxSystem_init ''neko'' ''miru'' ''sakana'' False ''''
     (draws_from 0)) = Inr ''nekowa sakanawo miru.''"
  by code_simp

lemma generate_sentence_example2:
  "map_sum id fst (generate_sentence SyntaxSystem_init [] ''miru'' [] True ''umi''
     (draws_from 1)) = Inr ''ga umie miru.''"
  by code_simp

text \<open>
  C1. Whatever the object, the adverb flag and the adverb are, the string that
  \<open>generate_sentence\<close> returns is the phrases before the verb joined by single spaces,
  then a space, the verb and the final period; there is at least one such phrase. A
  string is returned whenever the three particle lists exist and are non-empty.
\<close>

theorem generate_sentence_verb_last:
  "(syntax_usable sy \<longrightarrow>
      (\<exists>s r'. generate_sentence sy subject verb obj add_adverb adverb r = Inr (s, r')))
   \<and> (\<forall>s r'. generate_sentence sy subject verb obj add_adverb adverb r = Inr (s, r') \<longrightarrow>
        (\<exists>phrases. phrases \<noteq> []
           \<and> sentence_parts sy subject verb obj add_adverb adverb r = Inr (phrases @ [verb], r')
           \<and> s = join '' '' phrases @ '' '' @ verb @ ''.''))"
proof (intro conjI impI allI)
  assume "syntax_usable sy"
  then show "\<exists>s r'. generate_sentence sy subject verb obj add_adverb adverb r = Inr (s, r')"
    by (rule generate_sentence_total)
next
  fix s r'
  assume "generate_sentence sy subject verb obj add_adverb adverb r = Inr (s, r')"
  then obtain parts where p: "sentence_parts sy subject verb obj add_adverb adverb r = Inr (parts, r')"
    and s: "s = join '' '' parts @ ''.''" by (auto simp: generate_sentence_Inr)
  from sentence_parts_shape [OF p] obtain ps ob av
    where parts: "parts = [subject @ ps] @ ob @ av @ [verb]" by blast
  define phrases where "phrases = [subject @ ps] @ ob @ av"
  have ne: "phrases \<noteq> []" and pv: "parts = phrases @ [verb]"
    by (simp_all add: phrases_def parts)
  from s pv join_snoc [OF ne, of "'' ''" verb]
  have "s = join '' '' phrases @ '' '' @ verb @ ''.''" by simp
  with ne p pv
  show "\<exists>phrases. phrases \<noteq> []
           \<and> sentence_parts sy subject verb obj add_adverb adverb r = Inr (phrases @ [verb], r')
           \<and> s = join '' '' phrases @ '' '' @ verb @ ''.''" by blast
qed

theorem generate_sentence_verb_last_witness:
  "syntax_usable SyntaxSystem_init
   \<and> (\<exists>s r'. generate_sentence SyntaxSystem_init ''neko'' ''miru'' ''sakana'' False [] (draws_from 0)
                = Inr (s, r')
        \<and> (\<exists>phrases. phrases \<noteq> [] \<and> s = join '' '' phrases @ '' '' @ ''miru'' @ ''.''))"
  using generate_sentence_verb_last
          [of SyntaxSystem_init "''neko''" "''miru''" "''sakana''" False "[]" "draws_from 0"]
        SyntaxSystem_init_usable
  by blast

text \<open>
  C10. The phrases of the sentence are: the subject with a subject particle, always, so
  that the sentence begins with subject + particle (a bare particle for an empty subject);
  the object with an object particle exactly when the object is a non-empty string; the
  adverb with a direction particle exactly when the flag is set and the adverb is a
  non-empty string; and the verb.
\<close>

theorem generate_sentence_optional_parts:
  "(syntax_usable sy \<longrightarrow>
      (\<exists>s r'. generate_sentence sy subject verb obj add_adverb adverb r = Inr (s, r')))
   \<and> (\<forall>s r'. generate_sentence sy subject verb obj add_adverb adverb r = Inr (s, r') \<longrightarrow>
        (\<exists>ps ob av.
           (\<exists>S. particles sy ''subject'' = Some S \<and> ps \<in> set S)
         \<and> (if obj \<noteq> []
             then \<exists>P po. particles sy ''object'' = Some P \<and> po \<in> set P \<and> ob = [obj @ po]
             else ob = [])
         \<and> (if add_adverb \<and> adverb \<noteq> []
             then \<exists>D pd. particles sy ''direction'' = Some D \<and> pd \<in> set D
                    \<and> av = [adverb @ pd]
             else av = [])
         \<and> s = join '' '' ([subject @ ps] @ ob @ av @ [verb]) @ ''.''
         \<and> prefix (subject @ ps) s))"
proof (intro conjI impI allI)
  assume "syntax_usable sy"
  then show "\<exists>s r'. generate_sentence sy subject verb obj add_adverb adverb r = Inr (s, r')"
    by (rule generate_sentence_total)
next
  fix s r'
  assume "generate_sentence sy subject verb obj add_adverb adverb r = Inr (s, r')"
  then obtain parts where p: "sentence_parts sy subject verb obj add_adverb adverb r = Inr (parts, r')"
    and s: "s = join '' '' parts @ ''.''" by (auto simp: generate_sentence_Inr)
  from sentence_parts_shape [OF p] obtain ps ob av
    where sh: "\<exists>S. particles sy ''subject'' = Some S \<and> ps \<in> set S"
      "if obj \<noteq> []
       then \<exists>P po. particles sy ''object'' = Some P \<and> po \<in> set P \<and> ob = [obj @ po]
       else ob = []"
      "if add_adverb \<and> adverb \<noteq> []
       then \<exists>D pd. particles sy ''direction'' = Some D \<and> pd \<in> set D \<and> av = [adverb @ pd]
       else av = []"
      and parts: "parts = [subject @ ps] @ ob @ av @ [verb]" by blast
  from s parts have s': "s = join '' '' ([subject @ ps] @ ob @ av @ [verb]) @ ''.''" by simp
  have "prefix (subject @ ps) (join '' '' ((subject @ ps) # (ob @ av @ [verb])))"
    by (rule join_prefix)
  then have "prefix (subject @ ps) (join '' '' ((subject @ ps) # (ob @ av @ [verb])) @ ''.'')"
    by (rule prefix_prefix)
  with s' have "prefix (subject @ ps) s" by simp
  with sh s' show "\<exists>ps ob av.
           (\<exists>S. particles sy ''subject'' = Some S \<and> ps \<in> set S)
         \<and> (if obj \<noteq> []
             then \<exists>P po. particles sy ''object'' = Some P \<and> po \<in> set P \<and> ob = [obj @ po]
             else ob = [])
         \<and> (if add_adverb \<and> adverb \<noteq> []
             then \<exists>D pd. particles sy ''direction'' = Some D \<and> pd \<in> set D
                    \<and> av = [adverb @ pd]
             else av = [])
         \<and> s = join '' '' ([subject @ ps] @ ob @ av @ [verb]) @ ''.''
         \<and> prefix (subject @ ps) s" by blast
qed

theorem generate_sentence_optional_parts_witness:
  "syntax_usable SyntaxSystem_init
   \<and> (\<exists>s r' ps. generate_sentence SyntaxSystem_init [] ''miru'' [] True ''umi'' (draws_from 1)
                = Inr (s, r')
        \<and> ps \<in> {''wa'', ''ga''} \<and> prefix ps s
        \<and> (\<exists>pd\<in>{''e'', ''o''}. s = join '' '' [ps, ''umi'' @ pd, ''miru''] @ ''.''))"
proof -
  note t = generate_sentence_optional_parts
             [of SyntaxSystem_init "[]" "''miru''" "[]" True "''umi''" "draws_from 1"]
  from t SyntaxSystem_init_usable obtain s r'
    where g: "generate_sentence SyntaxSystem_init [] ''miru'' [] True ''umi'' (draws_from 1)
                = Inr (s, r')" by blast
  with t obtain ps ob av where
    a: "\<exists>S. particles SyntaxSystem_init ''subject'' = Some S \<and> ps \<in> set S"
    and b: "if ([]::string) \<noteq> []
            then \<exists>P po. particles SyntaxSystem_init ''object'' = Some P \<and> po \<in> set P
                   \<and> ob = [[] @ po]
            else ob = []"
    and c: "if True \<and> ''umi'' \<noteq> []
            then \<exists>D pd. particles SyntaxSystem_init ''direction'' = Some D \<and> pd \<in> set D
                   \<and> av = [''umi'' @ pd]
            else av = []"
    and d: "s = join '' '' ([[] @ ps] @ ob @ av @ [''miru'']) @ ''.''"
    and e: "prefix ([] @ ps) s" by blast
  from b have b: "ob = []" by simp
  from c have c: "\<exists>D pd. particles SyntaxSystem_init ''direction'' = Some D \<and> pd \<in> set D
              \<and> av = [''umi'' @ pd]" by simp
  from a have ps: "ps \<in> {''wa'', ''ga''}" by (simp add: SyntaxSystem_init_def)
  from c obtain pd where pd: "pd \<in> {''e'', ''o''}" "av = [''umi'' @ pd]"
    by (auto simp: SyntaxSystem_init_def)
  from b d pd(2) have "s = join '' '' [ps, ''umi'' @ pd, ''miru''] @ ''.''" by simp
  with g ps e pd(1) SyntaxSystem_init_usable show ?thesis by fastforce
qed

subsection \<open>The vocabulary store\<close>

lemma dd_getitem_snd:
  "fst (dd_getitem (snd (dd_getitem d k)) k') = fst (dd_getitem d k')"
  by (simp add: dd_getitem_def split: option.splits)

lemma dd_getitem_append:
  "fst (dd_getitem (dd_append d k w) k') =
     (if k' = k then fst (dd_getitem d k) @ [w] else fst (dd_getitem d k'))"
  by (simp add: dd_append_def dd_getitem_def split: option.splits)

lemma words_of_touch [simp]:
  "words_of (st\<lparr>vocabulary := snd (dd_getitem (vocabulary st) k)\<rparr>) k' = words_of st k'"
  by (simp add: words_of_def dd_getitem_snd)

lemma words_of_dd_append [simp]:
  "words_of (st\<lparr>vocabulary := dd_append (vocabulary st) k w\<rparr>) k' =
     (if k' = k then words_of st k @ [w] else words_of st k')"
  by (simp add: words_of_def dd_getitem_append)

lemma words_of_append_output [simp]: "words_of (append_output st line) k = words_of st k"
  by (simp add: words_of_def append_output_def)

lemma append_output_fields [simp]:
  "phonology (append_output st line) = phonology st"
  "morphology (append_output st line) = morphology st"
  "syntax_sys (append_output st line) = syntax_sys st"
  by (simp_all add: append_output_def)

lemma seed_loop_grows:
  assumes "phonology_usable ph"
  shows "phonology st = ph \<Longrightarrow>
         \<exists>st' r'. seed_loop st cls k r = Inr (st', r')
           \<and> phonology st' = ph \<and> morphology st' = morphology st
           \<and> syntax_sys st' = syntax_sys st
           \<and> (\<exists>new. length new = k \<and> words_of st' cls = words_of st cls @ new)
           \<and> (\<forall>c. c \<noteq> cls \<longrightarrow> words_of st' c = words_of st c)"
proof (induction k arbitrary: st r)
  case 0
  then show ?case by simp
next
  case (Suc k)
  from assms have u: "consonants ph \<noteq> []" "vowels ph \<noteq> []" "n_end ph \<noteq> []"
    by (simp_all add: phonology_usable_def)
  from generate_word_total [OF u, of "Some 2" cls r]
  obtain word r1 where g: "generate_word ph (Some 2) cls r = Inr (word, r1)" by blast
  define st1 where "st1 = st\<lparr>vocabulary := dd_append (vocabulary st) cls word\<rparr>"
  have ph1: "phonology st1 = ph" using Suc.prems by (simp add: st1_def)
  from Suc.IH [OF ph1, of r1] obtain st' r' new
    where l: "seed_loop st1 cls k r1 = Inr (st', r')"
      and c: "phonology st' = ph" "morphology st' = morphology st1"
        "syntax_sys st' = syntax_sys st1"
      and n: "length new = k" "words_of st' cls = words_of st1 cls @ new"
      and o: "\<forall>c. c \<noteq> cls \<longrightarrow> words_of st' c = words_of st1 c" by blast
  have s: "seed_loop st cls (Suc k) r = Inr (st', r')"
    using g l Suc.prems by (simp add: st1_def)
  have w: "words_of st' cls = words_of st cls @ (word # new)"
    using n(2) by (simp add: st1_def)
  have len: "length (word # new) = Suc k" using n(1) by simp
  have o': "\<forall>c. c \<noteq> cls \<longrightarrow> words_of st' c = words_of st c"
    using o by (simp add: st1_def)
  have c': "morphology st' = morphology st" "syntax_sys st' = syntax_sys st"
    using c by (simp_all add: st1_def)
  from s c(1) c' w len o' show ?case by blast
qed

lemma ensure_words_grows:
  assumes "phonology_usable (phonology st)"
  shows "\<exists>st' r'. ensure_words st cls k r = Inr (st', r')
           \<and> phonology st' = phonology st \<and> morphology st' = morphology st
           \<and> syntax_sys st' = syntax_sys st
           \<and> (\<exists>new. words_of st' cls = words_of st cls @ new
                 \<and> (if words_of st cls = [] then length new = k else new = []))
           \<and> (\<forall>c. c \<noteq> cls \<longrightarrow> words_of st' c = words_of st c)"
proof -
  define st0 where "st0 = st\<lparr>vocabulary := snd (dd_getitem (vocabulary st) cls)\<rparr>"
  have e: "ensure_words st cls k r =
             (if words_of st cls = [] then seed_loop st0 cls k r else Inr (st0, r))"
    by (simp add: ensure_words_def st0_def words_of_def split: prod.splits)
  have f: "phonology st0 = phonology st" "morphology st0 = morphology st"
    "syntax_sys st0 = syntax_sys st" "\<And>c. words_of st0 c = words_of st c"
    by (simp_all add: st0_def)
  show ?thesis
  proof (cases "words_of st cls = []")
    case True
    from seed_loop_grows [OF assms f(1), of cls k r] obtain st' r' new
      where "seed_loop st0 cls k r = Inr (st', r')" "phonology st' = phonology st"
        "morphology st' = morphology st0" "syntax_sys st' = syntax_sys st0"
        "length new = k" "words_of st' cls = words_of st0 cls @ new"
        "\<forall>c. c \<noteq> cls \<longrightarrow> words_of st' c = words_of st0 c" by blast
    with True e f show ?thesis by auto
  next
    case False
    with e f show ?thesis by auto
  qed
qed

lemma random_choice_total:
  "xs \<noteq> [] \<Longrightarrow> \<exists>x r'. random_choice xs r = Inr (x, r')"
  by (simp add: random_choice_def draw_def)

lemma sentence_loop_keeps:
  assumes "phonology_usable ph" "syntax_usable sy"
  shows "phonology st = ph \<Longrightarrow> syntax_sys st = sy \<Longrightarrow>
         words_of st ''noun'' \<noteq> [] \<Longrightarrow> words_of st ''verb'' \<noteq> [] \<Longrightarrow>
         \<exists>st' r'. sentence_loop st k r = Inr (st', r')
           \<and> phonology st' = ph \<and> morphology st' = morphology st \<and> syntax_sys st' = sy
           \<and> (\<forall>c. words_of st' c = words_of st c)"
proof (induction k arbitrary: st r)
  case 0
  then show ?case by simp
next
  case (Suc k)
  from assms(1) have u: "consonants ph \<noteq> []" "vowels ph \<noteq> []" "n_end ph \<noteq> []"
    by (simp_all add: phonology_usable_def)
  obtain pattern r1 where p: "random_choice sentence_patterns r = Inr (pattern, r1)"
  proof -
    have "sentence_patterns \<noteq> []" by (simp add: sentence_patterns_def)
    from random_choice_total [OF this, of r] that show ?thesis by blast
  qed
  define nouns where "nouns = fst (dd_getitem (vocabulary st) ''noun'')"
  define voc1 where "voc1 = snd (dd_getitem (vocabulary st) ''noun'')"
  define verbs where "verbs = fst (dd_getitem voc1 ''verb'')"
  define voc2 where "voc2 = snd (dd_getitem voc1 ''verb'')"
  define nouns' where "nouns' = fst (dd_getitem voc2 ''noun'')"
  define voc2' where "voc2' = snd (dd_getitem voc2 ''noun'')"
  define voc3 where "voc3 = (if ''O'' \<in> set pattern then voc2' else voc2)"
  have g1: "dd_getitem (vocabulary st) ''noun'' = (nouns, voc1)"
    by (simp add: nouns_def voc1_def)
  have g2: "dd_getitem voc1 ''verb'' = (verbs, voc2)"
    by (simp add: verbs_def voc2_def)
  have g3: "dd_getitem voc2 ''noun'' = (nouns', voc2')"
    by (simp add: nouns'_def voc2'_def)
  have n: "nouns = words_of st ''noun''" by (simp add: nouns_def words_of_def)
  have v: "verbs = words_of st ''verb''"
    by (simp add: verbs_def voc1_def words_of_def dd_getitem_snd)
  have n': "nouns' = words_of st ''noun''"
    by (simp add: nouns'_def voc2_def voc1_def words_of_def dd_getitem_snd)
  have w3: "fst (dd_getitem voc3 c) = words_of st c" for c
    by (simp add: voc3_def voc2'_def voc2_def voc1_def words_of_def dd_getitem_snd)
  from n Suc.prems(3) obtain subject r2 where s: "random_choice nouns r1 = Inr (subject, r2)"
    using random_choice_total [of nouns r1] by auto
  from v Suc.prems(4) obtain verb r3 where vb: "random_choice verbs r2 = Inr (verb, r3)"
    using random_choice_total [of verbs r2] by auto
  obtain obj r4 where ob:
    "(if ''O'' \<in> set pattern
      then (case dd_getitem voc2 ''noun'' of (nouns', voc3) \<Rightarrow>
              (case random_choice nouns' r3 of
                 Inl e \<Rightarrow> Inl e
               | Inr (obj, r4) \<Rightarrow> Inr (obj, voc3, r4)))
      else Inr ([], voc2, r3)) = Inr (obj, voc3, r4)"
  proof (cases "''O'' \<in> set pattern")
    case True
    from n' Suc.prems(3) obtain obj r4 where "random_choice nouns' r3 = Inr (obj, r4)"
      using random_choice_total [of nouns' r3] by auto
    with True that show ?thesis by (simp add: g3 voc3_def)
  next
    case False
    with that show ?thesis by (simp add: voc3_def)
  qed
  obtain adverb r5 where av:
    "(if ''Adv'' \<in> set pattern
      then generate_word ph (Some 2) ''noun'' r4
      else Inr ([], r4)) = Inr (adverb, r5)"
    using generate_word_total [OF u, of "Some 2" "''noun''" r4]
    by (cases "''Adv'' \<in> set pattern") auto
  from generate_sentence_total [OF assms(2)]
  obtain sentence r6 where gs:
    "generate_sentence sy subject verb obj (''Adv'' \<in> set pattern) adverb r5
       = Inr (sentence, r6)" by blast
  define st1 where "st1 = append_output (st\<lparr>vocabulary := voc3\<rparr>) sentence"
  have f1: "phonology st1 = ph" "syntax_sys st1 = sy" "morphology st1 = morphology st"
    using Suc.prems(1,2) by (simp_all add: st1_def)
  have w1: "words_of st1 c = words_of st c" for c
    using w3 [of c] by (simp add: st1_def words_of_def append_output_def)
  from Suc.prems(3,4) have ne: "words_of st1 ''noun'' \<noteq> []" "words_of st1 ''verb'' \<noteq> []"
    by (simp_all add: w1)
  from Suc.IH [OF f1(1,2) ne, of r6] obtain st' r'
    where l: "sentence_loop st1 k r6 = Inr (st', r')"
      and c: "phonology st' = ph" "morphology st' = morphology st1" "syntax_sys st' = sy"
      and w: "\<forall>c. words_of st' c = words_of st1 c" by blast
  have step: "sentence_loop st (Suc k) r = sentence_loop st1 k r6"
  proof (cases "''Adv'' \<in> set pattern")
    case True
    with av Suc.prems(1)
    have a: "generate_word (phonology st) (Some 2) ''noun'' r4 = Inr (adverb, r5)" by simp
    from gs True Suc.prems(2)
    have b: "generate_sentence (syntax_sys st) subject verb obj True adverb r5
               = Inr (sentence, r6)" by simp
    from True show ?thesis by (simp add: p g1 s g2 vb ob a b st1_def)
  next
    case False
    with av have e: "adverb = []" "r5 = r4" by simp_all
    from gs False e Suc.prems(2)
    have b: "generate_sentence (syntax_sys st) subject verb obj False [] r4
               = Inr (sentence, r6)" by simp
    from False show ?thesis by (simp add: p g1 s g2 vb ob b st1_def)
  qed
  from step l c f1(3) w w1 show ?case by auto
qed

lemma generate_vocabulary_loop_grows:
  assumes "phonology_usable ph"
  shows "phonology st = ph \<Longrightarrow>
         \<exists>st' r'. generate_vocabulary_loop st wts r = Inr (st', r')
           \<and> phonology st' = ph \<and> morphology st' = morphology st
           \<and> syntax_sys st' = syntax_sys st
           \<and> (\<forall>c. prefix (words_of st c) (words_of st' c))"
proof (induction wts arbitrary: st r)
  case Nil
  then show ?case by simp
next
  case (Cons wt wts)
  from assms have u: "consonants ph \<noteq> []" "vowels ph \<noteq> []" "n_end ph \<noteq> []"
    by (simp_all add: phonology_usable_def)
  from random_randint_2_3 [of r] obtain n r1
    where ri: "random_randint 2 3 r = Inr (n, r1)" by blast
  from generate_word_total [OF u, of "Some n" wt r1]
  obtain word r2 where g: "generate_word ph (Some n) wt r1 = Inr (word, r2)" by blast
  define st1 where
    "st1 = append_output (st\<lparr>vocabulary := dd_append (vocabulary st) wt word\<rparr>) word"
  have f1: "phonology st1 = ph" "morphology st1 = morphology st"
    "syntax_sys st1 = syntax_sys st"
    using Cons.prems by (simp_all add: st1_def)
  have w1: "prefix (words_of st c) (words_of st1 c)" for c
    by (simp add: st1_def)
  from Cons.IH [OF f1(1), of r2] obtain st' r'
    where l: "generate_vocabulary_loop st1 wts r2 = Inr (st', r')"
      and c: "phonology st' = ph" "morphology st' = morphology st1"
        "syntax_sys st' = syntax_sys st1"
      and w: "\<forall>c. prefix (words_of st1 c) (words_of st' c)" by blast
  have step: "generate_vocabulary_loop st (wt # wts) r = Inr (st', r')"
    using Cons.prems ri g l by (simp add: st1_def)
  have "prefix (words_of st c) (words_of st' c)" for c
    using w1 [of c] w by (blast intro: prefix_order.trans)
  with step c f1 show ?case by auto
qed

lemma show_variant_keeps:
  "\<exists>st' r'. show_variant st cls rule_name r = Inr (st', r')
     \<and> phonology st' = phonology st \<and> morphology st' = morphology st
     \<and> syntax_sys st' = syntax_sys st
     \<and> (\<forall>c. words_of st' c = words_of st c)"
proof -
  define ws where "ws = fst (dd_getitem (vocabulary st) cls)"
  define voc where "voc = snd (dd_getitem (vocabulary st) cls)"
  have g: "dd_getitem (vocabulary st) cls = (ws, voc)" by (simp add: ws_def voc_def)
  have w: "words_of (st\<lparr>vocabulary := voc\<rparr>) c = words_of st c" for c
    by (simp add: voc_def)
  show ?thesis
  proof (cases "ws = []")
    case True
    then show ?thesis using w by (simp add: show_variant_def g)
  next
    case False
    from random_choice_total [OF False, of r] obtain x r1
      where "random_choice ws r = Inr (x, r1)" by blast
    with False show ?thesis using w by (simp add: show_variant_def g)
  qed
qed

lemma show_morphology_keeps:
  "\<exists>st' r'. show_morphology st r = Inr (st', r')
     \<and> phonology st' = phonology st \<and> morphology st' = morphology st
     \<and> syntax_sys st' = syntax_sys st
     \<and> (\<forall>c. words_of st' c = words_of st c)"
proof -
  from show_variant_keeps [of st "''noun''" "''plural''" r] obtain st1 r1
    where a: "show_variant st ''noun'' ''plural'' r = Inr (st1, r1)"
      and fa: "phonology st1 = phonology st" "morphology st1 = morphology st"
        "syntax_sys st1 = syntax_sys st" "\<forall>c. words_of st1 c = words_of st c" by blast
  from show_variant_keeps [of st1 "''verb''" "''past''" r1] obtain st2 r2
    where b: "show_variant st1 ''verb'' ''past'' r1 = Inr (st2, r2)"
      and fb: "phonology st2 = phonology st1" "morphology st2 = morphology st1"
        "syntax_sys st2 = syntax_sys st1" "\<forall>c. words_of st2 c = words_of st1 c" by blast
  from show_variant_keeps [of st2 "''adjective''" "''negative''" r2] obtain st3 r3
    where c: "show_variant st2 ''adjective'' ''negative'' r2 = Inr (st3, r3)"
      and fc: "phonology st3 = phonology st2" "morphology st3 = morphology st2"
        "syntax_sys st3 = syntax_sys st2" "\<forall>c. words_of st3 c = words_of st2 c" by blast
  have "show_morphology st r = Inr (st2, r2) \<or> show_morphology st r = Inr (st3, r3)"
    by (simp add: show_morphology_def a b c split: option.splits)
  moreover have "phonology st2 = phonology st" "morphology st2 = morphology st"
    "syntax_sys st2 = syntax_sys st" "\<forall>c. words_of st2 c = words_of st c"
    using fa fb by simp_all
  moreover have "phonology st3 = phonology st" "morphology st3 = morphology st"
    "syntax_sys st3 = syntax_sys st" "\<forall>c. words_of st3 c = words_of st c"
    using fa fb fc by simp_all
  ultimately show ?thesis by (elim disjE) simp_all
qed

lemma generate_sentences_grows:
  assumes "phonology_usable (phonology st)" "syntax_usable (syntax_sys st)"
  shows "\<exists>st1 r1 st2 r2 st3 r3.
           ensure_words st ''noun'' 3 r = Inr (st1, r1)
         \<and> ensure_words st1 ''verb'' 2 r1 = Inr (st2, r2)
         \<and> sentence_loop st2 (nat count) r2 = Inr (st3, r3)
         \<and> generate_sentences st count r = Inr (st3, r3)
         \<and> (\<exists>new. words_of st2 ''noun'' = words_of st ''noun'' @ new
               \<and> (if words_of st ''noun'' = [] then length new = 3 else new = []))
         \<and> (\<exists>new. words_of st2 ''verb'' = words_of st ''verb'' @ new
               \<and> (if words_of st ''verb'' = [] then length new = 2 else new = []))
         \<and> (\<forall>c. prefix (words_of st c) (words_of st2 c))
         \<and> (\<forall>c. words_of st3 c = words_of st2 c)
         \<and> phonology st3 = phonology st \<and> morphology st3 = morphology st
         \<and> syntax_sys st3 = syntax_sys st"
proof -
  from ensure_words_grows [OF assms(1), of "''noun''" 3 r] obtain st1 r1 new1
    where a: "ensure_words st ''noun'' 3 r = Inr (st1, r1)"
      and fa: "phonology st1 = phonology st" "morphology st1 = morphology st"
        "syntax_sys st1 = syntax_sys st"
      and na: "words_of st1 ''noun'' = words_of st ''noun'' @ new1"
        "if words_of st ''noun'' = [] then length new1 = 3 else new1 = []"
      and oa: "\<forall>c. c \<noteq> ''noun'' \<longrightarrow> words_of st1 c = words_of st c" by blast
  from assms(1) fa(1) have u1: "phonology_usable (phonology st1)" by simp
  from ensure_words_grows [OF u1, of "''verb''" 2 r1] obtain st2 r2 new2
    where b: "ensure_words st1 ''verb'' 2 r1 = Inr (st2, r2)"
      and fb: "phonology st2 = phonology st1" "morphology st2 = morphology st1"
        "syntax_sys st2 = syntax_sys st1"
      and nb: "words_of st2 ''verb'' = words_of st1 ''verb'' @ new2"
        "if words_of st1 ''verb'' = [] then length new2 = 2 else new2 = []"
      and ob: "\<forall>c. c \<noteq> ''verb'' \<longrightarrow> words_of st2 c = words_of st1 c" by blast
  from oa have v1: "words_of st1 ''verb'' = words_of st ''verb''" by simp
  from ob have n2: "words_of st2 ''noun'' = words_of st1 ''noun''" by simp
  have noun2: "words_of st2 ''noun'' = words_of st ''noun'' @ new1" using n2 na(1) by simp
  have verb2: "words_of st2 ''verb'' = words_of st ''verb'' @ new2" using nb(1) v1 by simp
  have nb': "if words_of st ''verb'' = [] then length new2 = 2 else new2 = []"
    using nb(2) v1 by simp
  have ne_n: "words_of st2 ''noun'' \<noteq> []"
    using noun2 na(2) by (cases "words_of st ''noun'' = []") auto
  have ne_v: "words_of st2 ''verb'' \<noteq> []"
    using verb2 nb' by (cases "words_of st ''verb'' = []") auto
  have other: "\<forall>c. prefix (words_of st c) (words_of st2 c)"
  proof
    fix c
    show "prefix (words_of st c) (words_of st2 c)"
    proof (cases "c = ''noun''")
      case True
      with noun2 show ?thesis by simp
    next
      case False
      note nn = this
      show ?thesis
      proof (cases "c = ''verb''")
        case True
        with verb2 show ?thesis by simp
      next
        case False
        with nn oa ob show ?thesis by simp
      qed
    qed
  qed
  have p2: "phonology st2 = phonology st" "syntax_sys st2 = syntax_sys st"
    "morphology st2 = morphology st"
    using fa fb by simp_all
  from sentence_loop_keeps [OF assms p2(1,2) ne_n ne_v, of "nat count" r2] obtain st3 r3
    where l: "sentence_loop st2 (nat count) r2 = Inr (st3, r3)"
      and fl: "phonology st3 = phonology st" "morphology st3 = morphology st2"
        "syntax_sys st3 = syntax_sys st"
      and wl: "\<forall>c. words_of st3 c = words_of st2 c" by blast
  have gs: "generate_sentences st count r = Inr (st3, r3)"
    by (simp add: generate_sentences_def a b l)
  have m3: "morphology st3 = morphology st" using fl(2) p2(3) by simp
  have en: "\<exists>new. words_of st2 ''noun'' = words_of st ''noun'' @ new
               \<and> (if words_of st ''noun'' = [] then length new = 3 else new = [])"
    using noun2 na(2) by (intro exI [of _ new1] conjI)
  have ev: "\<exists>new. words_of st2 ''verb'' = words_of st ''verb'' @ new
               \<and> (if words_of st ''verb'' = [] then length new = 2 else new = [])"
    using verb2 nb' by (intro exI [of _ new2] conjI)
  show ?thesis
    by (rule exI [of _ st1], rule exI [of _ r1], rule exI [of _ st2], rule exI [of _ r2],
        rule exI [of _ st3], rule exI [of _ r3])
       (intro conjI a b l gs en ev other wl fl(1) m3 fl(3))
qed

lemma PhonologySystem_init_phonology_usable: "phonology_usable PhonologySystem_init"
  by (simp add: phonology_usable_def PhonologySystem_init_def)

lemma JapaneseLanguageCreatorUI_init_fields:
  "phonology JapaneseLanguageCreatorUI_init = PhonologySystem_init"
  "syntax_sys JapaneseLanguageCreatorUI_init = SyntaxSystem_init"
  "vocabulary JapaneseLanguageCreatorUI_init = Map.empty"
  by (simp_all add: JapaneseLanguageCreatorUI_init_def init_default_rules_def)

lemma JapaneseLanguageCreatorUI_init_usable:
  "phonology_usable (phonology JapaneseLanguageCreatorUI_init)"
  "syntax_usable (syntax_sys JapaneseLanguageCreatorUI_init)"
  by (simp_all add: JapaneseLanguageCreatorUI_init_fields
        PhonologySystem_init_phonology_usable SyntaxSystem_init_usable)

lemma JapaneseLanguageCreatorUI_init_words:
  "words_of JapaneseLanguageCreatorUI_init c = []"
  by (simp add: words_of_def dd_getitem_def JapaneseLanguageCreatorUI_init_fields)



text \<open>One click on each button of a fresh window, on the draws 0, 1, 2, \<dots>: the nouns,
  the verbs and the lines shown.\<close>

lemma generate_sentences_example:
  "map_sum id (\<lambda>(st, r). (words_of st ''noun'', words_of st ''verb'', output_text st))
     (generate_sentences JapaneseLanguageCreatorUI_init 1 (draws_from 0))
   = Inr ([''kihara'', ''woneko'', ''rusanto''], [''yakeru'', ''hurasu''],
          [''kiharaga rusantowo yekitoo yakeru.''])"
  by code_simp

lemma generate_vocabulary_example:
  "map_sum id (\<lambda>(st, r). (words_of st ''noun'', words_of st ''verb'',
                              words_of st ''adjective''))
     (generate_vocabulary JapaneseLanguageCreatorUI_init (draws_from 0))
   = Inr ([''suhara'', ''koherito'', ''muwara''], [''kanhomu''], [''nirase''])"
  by code_simp

text \<open>The same button pressed on a store that already holds words: the new words come
  after the old ones.\<close>

lemma generate_vocabulary_stocked_example:
  "map_sum id (\<lambda>(st, r). (words_of st ''noun'', words_of st ''verb'',
                              words_of st ''adjective''))
     (generate_vocabulary
        (JapaneseLanguageCreatorUI_init
           \<lparr>vocabulary := [''noun'' \<mapsto> [''suhara'', ''koherito'', ''muwara''],
                           ''verb'' \<mapsto> [''kanhomu''],
                           ''adjective'' \<mapsto> [''nirase'']]\<rparr>)
        (draws_from 5))
   = Inr ([''suhara'', ''koherito'', ''muwara'', ''yukanhomi'', ''niraseko'', ''wotuna''],
          [''kanhomu'', ''koheriku''], [''nirase'', ''yekino''])"
  by code_simp

text \<open>
  C4. When the noun and the verb class hold no word (in particular when the store is
  empty), \<open>generate_sentences 1\<close> first runs the two seeding steps, after which the noun
  class holds 3 words and the verb class 2, and only then the sentence loop, which
  samples from these non-empty lists; the call returns normally, so no draw raised, and
  the loop leaves the stored words as they are.
\<close>

theorem generate_sentences_seeds_first:
  assumes "words_of st ''noun'' = []" "words_of st ''verb'' = []"
      and "phonology_usable (phonology st)" "syntax_usable (syntax_sys st)"
  shows "\<exists>st1 r1 st2 r2 st3 r3.
           ensure_words st ''noun'' 3 r = Inr (st1, r1)
         \<and> ensure_words st1 ''verb'' 2 r1 = Inr (st2, r2)
         \<and> length (words_of st2 ''noun'') = 3 \<and> length (words_of st2 ''verb'') = 2
         \<and> sentence_loop st2 1 r2 = Inr (st3, r3)
         \<and> generate_sentences st 1 r = Inr (st3, r3)
         \<and> (\<forall>c. words_of st3 c = words_of st2 c)"
proof -
  from generate_sentences_grows [OF assms(3,4), of r 1] obtain st1 r1 st2 r2 st3 r3
    where a: "ensure_words st ''noun'' 3 r = Inr (st1, r1)"
      and b: "ensure_words st1 ''verb'' 2 r1 = Inr (st2, r2)"
      and l: "sentence_loop st2 (nat 1) r2 = Inr (st3, r3)"
      and g: "generate_sentences st 1 r = Inr (st3, r3)"
      and n: "\<exists>new. words_of st2 ''noun'' = words_of st ''noun'' @ new
               \<and> (if words_of st ''noun'' = [] then length new = 3 else new = [])"
      and v: "\<exists>new. words_of st2 ''verb'' = words_of st ''verb'' @ new
               \<and> (if words_of st ''verb'' = [] then length new = 2 else new = [])"
      and w: "\<forall>c. words_of st3 c = words_of st2 c" by blast
  from n assms(1) have n3: "length (words_of st2 ''noun'') = 3" by auto
  from v assms(2) have v2: "length (words_of st2 ''verb'') = 2" by auto
  from l have l1: "sentence_loop st2 1 r2 = Inr (st3, r3)" by simp
  show ?thesis
    by (rule exI [of _ st1], rule exI [of _ r1], rule exI [of _ st2], rule exI [of _ r2],
        rule exI [of _ st3], rule exI [of _ r3])
       (intro conjI a b n3 v2 l1 g w)
qed

theorem generate_sentences_seeds_first_witness:
  "\<exists>st1 r1 st2 r2 st3 r3.
     ensure_words JapaneseLanguageCreatorUI_init ''noun'' 3 (draws_from 0) = Inr (st1, r1)
   \<and> ensure_words st1 ''verb'' 2 r1 = Inr (st2, r2)
   \<and> length (words_of st2 ''noun'') = 3 \<and> length (words_of st2 ''verb'') = 2
   \<and> sentence_loop st2 1 r2 = Inr (st3, r3)
   \<and> generate_sentences JapaneseLanguageCreatorUI_init 1 (draws_from 0) = Inr (st3, r3)
   \<and> (\<forall>c. words_of st3 c = words_of st2 c)"
  by (rule generate_sentences_seeds_first
        [OF JapaneseLanguageCreatorUI_init_words JapaneseLanguageCreatorUI_init_words
            JapaneseLanguageCreatorUI_init_usable])

text \<open>
  C9. Each of \<open>generate_vocabulary\<close>, \<open>generate_sentences\<close>, \<open>show_morphology\<close> and
  \<open>final_showcase\<close> returns normally, and for every word class the list stored before
  the operation is a prefix of the list stored after it: nothing is removed, reordered
  or deduplicated.
\<close>

theorem vocabulary_append_only:
  assumes "phonology_usable (phonology st)" "syntax_usable (syntax_sys st)"
  shows "(\<exists>st' r'. generate_vocabulary st r = Inr (st', r')
            \<and> (\<forall>c. prefix (words_of st c) (words_of st' c)))
       \<and> (\<exists>st' r'. generate_sentences st count r = Inr (st', r')
            \<and> (\<forall>c. prefix (words_of st c) (words_of st' c)))
       \<and> (\<exists>st' r'. show_morphology st r = Inr (st', r')
            \<and> (\<forall>c. prefix (words_of st c) (words_of st' c)))
       \<and> (\<exists>st' r'. final_showcase st r = Inr (st', r')
            \<and> (\<forall>c. prefix (words_of st c) (words_of st' c)))"
proof -
  have gv: "\<exists>st' r'. generate_vocabulary st r = Inr (st', r')
            \<and> (\<forall>c. prefix (words_of st c) (words_of st' c))"
    using generate_vocabulary_loop_grows [OF assms(1) refl, of word_types r]
    unfolding generate_vocabulary_def by blast
  have gs: "\<exists>st' r'. generate_sentences st n r = Inr (st', r')
            \<and> (\<forall>c. prefix (words_of st c) (words_of st' c))" for n
  proof -
    from generate_sentences_grows [OF assms, of r n] obtain st2 st3 r3
      where g: "generate_sentences st n r = Inr (st3, r3)"
        and o: "\<forall>c. prefix (words_of st c) (words_of st2 c)"
        and w: "\<forall>c. words_of st3 c = words_of st2 c" by blast
    have "\<forall>c. prefix (words_of st c) (words_of st3 c)" using o w by simp
    with g show ?thesis by blast
  qed
  have sm: "\<exists>st' r'. show_morphology st r = Inr (st', r')
            \<and> (\<forall>c. prefix (words_of st c) (words_of st' c))"
  proof -
    from show_morphology_keeps [of st r] obtain st' r'
      where "show_morphology st r = Inr (st', r')" "\<forall>c. words_of st' c = words_of st c"
      by blast
    then show ?thesis by auto
  qed
  have fs: "\<exists>st' r'. final_showcase st r = Inr (st', r')
            \<and> (\<forall>c. prefix (words_of st c) (words_of st' c))"
    unfolding final_showcase_def by (rule gs)
  from gv gs [of count] sm fs show ?thesis by (intro conjI)
qed

theorem vocabulary_append_only_witness:
  "(\<exists>st' r'. generate_vocabulary
        (JapaneseLanguageCreatorUI_init
           \<lparr>vocabulary := [''noun'' \<mapsto> [''suhara'', ''koherito'', ''muwara''],
                           ''verb'' \<mapsto> [''kanhomu''],
                           ''adjective'' \<mapsto> [''nirase'']]\<rparr>)
        (draws_from 5) = Inr (st', r')
      \<and> prefix [''suhara'', ''koherito'', ''muwara''] (words_of st' ''noun'')
      \<and> prefix [''kanhomu''] (words_of st' ''verb'')
      \<and> prefix [''nirase''] (words_of st' ''adjective''))
   \<and> (\<exists>st' r'. generate_sentences
        (JapaneseLanguageCreatorUI_init
           \<lparr>vocabulary := [''noun'' \<mapsto> [''suhara'', ''koherito'', ''muwara''],
                           ''verb'' \<mapsto> [''kanhomu''],
                           ''adjective'' \<mapsto> [''nirase'']]\<rparr>)
        5 (draws_from 5) = Inr (st', r')
      \<and> prefix [''suhara'', ''koherito'', ''muwara''] (words_of st' ''noun'')
      \<and> prefix [''kanhomu''] (words_of st' ''verb'')
      \<and> prefix [''nirase''] (words_of st' ''adjective''))
   \<and> (\<exists>st' r'. show_morphology
        (JapaneseLanguageCreatorUI_init
           \<lparr>vocabulary := [''noun'' \<mapsto> [''suhara'', ''koherito'', ''muwara''],
                           ''verb'' \<mapsto> [''kanhomu''],
                           ''adjective'' \<mapsto> [''nirase'']]\<rparr>)
        (draws_from 5) = Inr (st', r')
      \<and> prefix [''suhara'', ''koherito'', ''muwara''] (words_of st' ''noun'')
      \<and> prefix [''kanhomu''] (words_of st' ''verb'')
      \<and> prefix [''nirase''] (words_of st' ''adjective''))
   \<and> (\<exists>st' r'. final_showcase
        (JapaneseLanguageCreatorUI_init
           \<lparr>vocabulary := [''noun'' \<mapsto> [''suhara'', ''koherito'', ''muwara''],
                           ''verb'' \<mapsto> [''kanhomu''],
                           ''adjective'' \<mapsto> [''nirase'']]\<rparr>)
        (draws_from 5) = Inr (st', r')
      \<and> prefix [''suhara'', ''koherito'', ''muwara''] (words_of st' ''noun'')
      \<and> prefix [''kanhomu''] (words_of st' ''verb'')
      \<and> prefix [''nirase''] (words_of st' ''adjective''))"
proof -
  define st0 where "st0 = JapaneseLanguageCreatorUI_init
           \<lparr>vocabulary := [''noun'' \<mapsto> [''suhara'', ''koherito'', ''muwara''],
                           ''verb'' \<mapsto> [''kanhomu''],
                           ''adjective'' \<mapsto> [''nirase'']]\<rparr>"
  define kept where "kept st' \<longleftrightarrow>
        prefix [''suhara'', ''koherito'', ''muwara''] (words_of st' ''noun'')
      \<and> prefix [''kanhomu''] (words_of st' ''verb'')
      \<and> prefix [''nirase''] (words_of st' ''adjective'')" for st'
  have u: "phonology_usable (phonology st0)" "syntax_usable (syntax_sys st0)"
    by (simp_all add: st0_def JapaneseLanguageCreatorUI_init_usable)
  have w: "words_of st0 ''noun'' = [''suhara'', ''koherito'', ''muwara'']"
    "words_of st0 ''verb'' = [''kanhomu'']" "words_of st0 ''adjective'' = [''nirase'']"
    by (simp_all add: st0_def words_of_def dd_getitem_def)
  have k: "kept st'" if a: "\<forall>c. prefix (words_of st0 c) (words_of st' c)" for st'
    using a [rule_format, of "''noun''"] a [rule_format, of "''verb''"]
      a [rule_format, of "''adjective''"]
    by (simp add: kept_def w)
  from vocabulary_append_only [OF u, of "draws_from 5" 5] k
  have "(\<exists>st' r'. generate_vocabulary st0 (draws_from 5) = Inr (st', r') \<and> kept st')
      \<and> (\<exists>st' r'. generate_sentences st0 5 (draws_from 5) = Inr (st', r') \<and> kept st')
      \<and> (\<exists>st' r'. show_morphology st0 (draws_from 5) = Inr (st', r') \<and> kept st')
      \<and> (\<exists>st' r'. final_showcase st0 (draws_from 5) = Inr (st', r') \<and> kept st')"
    by blast
  then show ?thesis unfolding kept_def st0_def .
qed

end
